theory Spec2Isabelle
  imports Main "HOL-Library.Sublist"
begin

section \<open>The data store\<close>

text \<open>
  The relational tables the two services work on, as lists of rows in the store's own
  row order.  Only the columns that the services read or write are kept.  A date is a
  calendar day (a day number), a timestamp a point in time.
\<close>

type_synonym timestamp = nat
type_synonym date = int

record user =
  usr_id :: nat
  usr_email :: string

record event =
  ev_id :: nat
  ev_title :: string
  ev_startDate :: date
  ev_endDate :: "date option"
  ev_city :: string
  ev_type :: string
  ev_subtype :: string

text \<open>
  A participation record, a row of table \<open>event_users\<close>.  The two flags and
  \<open>created_at\<close> are not nullable.  The column \<open>updated_at\<close>, which no service reads
  or sets, is left out.
\<close>

record event_user =
  eu_id :: nat
  userId :: nat
  eventId :: nat
  isFavorite :: bool
  hasJoined :: bool
  createdAt :: timestamp

record store =
  users :: "user list"
  events :: "event list"
  event_users :: "event_user list"
  next_eu_id :: nat

datatype error =
    NotFoundException string
  | UniqueViolation
  | ForeignKeyViolation
  | QueryError

subsection \<open>The persistence layer\<close>

text \<open>\<open>Model.find(id)\<close>: the row with that primary key, if any.\<close>

definition Event_find :: "store \<Rightarrow> nat \<Rightarrow> event option" where
  "Event_find s i = find (\<lambda>e. ev_id e = i) (events s)"

definition User_find :: "store \<Rightarrow> nat \<Rightarrow> user option" where
  "User_find s i = find (\<lambda>u. usr_id u = i) (users s)"

text \<open>\<open>EventUser.query().where(...).first()\<close>: the first row that satisfies the conditions.\<close>

definition EventUser_first :: "(event_user \<Rightarrow> bool) \<Rightarrow> store \<Rightarrow> event_user option" where
  "EventUser_first P s = find P (event_users s)"

text \<open>
  \<open>row.isFavorite = v; row.save()\<close> on a fetched row \<open>x\<close>: an update of the row with
  that primary key, \<open>update event_users set is_favorite = v where id = x.id\<close>.  The call
  returns the changed instance.
\<close>

definition update_isFavorite :: "nat \<Rightarrow> bool \<Rightarrow> event_user \<Rightarrow> event_user" where
  "update_isFavorite i v r = (if eu_id r = i then r\<lparr>isFavorite := v\<rparr> else r)"

definition EventUser_save_isFavorite ::
  "event_user \<Rightarrow> bool \<Rightarrow> store \<Rightarrow> event_user \<times> store" where
  "EventUser_save_isFavorite x v s =
     (x\<lparr>isFavorite := v\<rparr>,
      s\<lparr>event_users := map (update_isFavorite (eu_id x) v) (event_users s)\<rparr>)"

text \<open>
  \<open>where('userId', u).where('eventId', e)\<close>: the rows of one user and one event.
\<close>

definition for_pair :: "nat \<Rightarrow> nat \<Rightarrow> event_user \<Rightarrow> bool" where
  "for_pair u e r = (userId r = u \<and> eventId r = e)"

text \<open>
  \<open>EventUser.create({...})\<close>: an insert.  The table's foreign keys and its unique
  constraint on \<open>(user_id, event_id)\<close> are checked by the store; the primary key is
  the next value of the table's counter, \<open>created_at\<close> the time of the insert.
\<close>

definition EventUser_create ::
  "timestamp \<Rightarrow> nat \<Rightarrow> nat \<Rightarrow> bool \<Rightarrow> bool \<Rightarrow> store \<Rightarrow> error + event_user \<times> store" where
  "EventUser_create now u e fav joined s =
     (if User_find s u = None \<or> Event_find s e = None then Inl ForeignKeyViolation
      else if list_ex (for_pair u e) (event_users s) then Inl UniqueViolation
      else
        (let row = \<lparr>eu_id = next_eu_id s, userId = u, eventId = e, isFavorite = fav,
                     hasJoined = joined, createdAt = now\<rparr>
         in Inr (row, s\<lparr>event_users := event_users s @ [row],
                         next_eu_id := Suc (next_eu_id s)\<rparr>)))"

text \<open>\<open>row.delete()\<close>: deletes the row with that primary key.\<close>

definition EventUser_delete :: "event_user \<Rightarrow> store \<Rightarrow> store" where
  "EventUser_delete x s =
     s\<lparr>event_users := filter (\<lambda>r. eu_id r \<noteq> eu_id x) (event_users s)\<rparr>"

subsection \<open>Pagination\<close>

text \<open>
  The ORM's paginator: the page's rows, the count of all matching rows, the page size and
  the page number that were asked for.  \<open>paginate(page, perPage)\<close> counts the matching
  rows and, when there are any, fetches the page with \<open>offset\<close> and \<open>limit\<close>; the
  query builder refuses a negative offset and the store a negative limit.  \<open>matching\<close> is
  the query's result in its order.
\<close>

record 'a paginator =
  pg_rows :: "'a list"
  pg_total :: nat
  pg_perPage :: int
  pg_currentPage :: int

definition paginate :: "int \<Rightarrow> int \<Rightarrow> 'a list \<Rightarrow> error + 'a paginator" where
  "paginate page perPage matching =
     (let total = length matching in
      if total = 0 then
        Inr \<lparr>pg_rows = [], pg_total = total, pg_perPage = perPage, pg_currentPage = page\<rparr>
      else
        (let offset = (if page = 1 then 0 else perPage * (page - 1)) in
         if offset < 0 \<or> perPage < 0 then Inl QueryError
         else Inr \<lparr>pg_rows = take (nat perPage) (drop (nat offset) matching),
                    pg_total = total, pg_perPage = perPage, pg_currentPage = page\<rparr>))"

text \<open>
  The paginator's derived values.  The last page is \<open>Math.max(Math.ceil(total / perPage), 1)\<close>,
  which is not a finite number when \<open>perPage\<close> is 0.
\<close>

datatype num = Finite int | PosInfinity | NaN

definition isEmpty :: "'a paginator \<Rightarrow> bool" where
  "isEmpty p = (length (pg_rows p) = 0)"

definition lastPage :: "'a paginator \<Rightarrow> num" where
  "lastPage p =
     (if pg_perPage p = 0 then (if pg_total p = 0 then NaN else PosInfinity)
      else Finite (max (- ((- int (pg_total p)) div pg_perPage p)) 1))"

definition hasPages :: "'a paginator \<Rightarrow> bool" where
  "hasPages p = (lastPage p \<noteq> Finite 1)"

definition hasMorePages :: "'a paginator \<Rightarrow> bool" where
  "hasMorePages p =
     (case lastPage p of Finite l \<Rightarrow> l > pg_currentPage p | PosInfinity \<Rightarrow> True | NaN \<Rightarrow> False)"

section \<open>BookmarksService\<close>

text \<open>
  Each method takes the store and returns it as the method leaves it; \<open>now\<close> is the time
  of the call.  A thrown exception is an \<open>Inl\<close> result.
\<close>

definition addBookmark ::
  "timestamp \<Rightarrow> store \<Rightarrow> nat \<Rightarrow> nat \<Rightarrow> error + event_user \<times> store" where
  "addBookmark now s uid eid =
     (case Event_find s eid of
        None \<Rightarrow> Inl (NotFoundException ''Event not found'')
      | Some event \<Rightarrow>
          (case User_find s uid of
             None \<Rightarrow> Inl (NotFoundException ''User not found'')
           | Some user \<Rightarrow>
               (case EventUser_first (for_pair uid eid) s of
                  Some eventUser \<Rightarrow> Inr (EventUser_save_isFavorite eventUser True s)
                | None \<Rightarrow> EventUser_create now uid eid True False s)))"

definition removeBookmark :: "store \<Rightarrow> nat \<Rightarrow> nat \<Rightarrow> bool \<times> store" where
  "removeBookmark s uid eid =
     (case EventUser_first (\<lambda>r. for_pair uid eid r \<and> isFavorite r) s of
        None \<Rightarrow> (False, s)
      | Some eventUser \<Rightarrow>
          (if hasJoined eventUser
           then (True, snd (EventUser_save_isFavorite eventUser False s))
           else (True, EventUser_delete eventUser s)))"

text \<open>A sequence of calls on the ledger; a call that throws leaves the store as it was.\<close>

datatype call = AddBookmark timestamp nat nat | RemoveBookmark nat nat

fun exec_call :: "store \<Rightarrow> call \<Rightarrow> store" where
  "exec_call s (AddBookmark now u e) =
     (case addBookmark now s u e of Inl err \<Rightarrow> s | Inr (r, s') \<Rightarrow> s')"
| "exec_call s (RemoveBookmark u e) = snd (removeBookmark s u e)"

definition run_calls :: "store \<Rightarrow> call list \<Rightarrow> store" where
  "run_calls s cs = foldl exec_call s cs"

text \<open>
  \<open>addBookmark\<close> next to another request: \<open>other\<close> is what the other request commits
  between this call's existence check and its write.  The three reads are made on \<open>s\<close>,
  the write on \<open>other s\<close>; the method has no handler around its writes.
\<close>

definition addBookmark_race ::
  "timestamp \<Rightarrow> (store \<Rightarrow> store) \<Rightarrow> store \<Rightarrow> nat \<Rightarrow> nat \<Rightarrow> error + event_user \<times> store" where
  "addBookmark_race now other s uid eid =
     (case Event_find s eid of
        None \<Rightarrow> Inl (NotFoundException ''Event not found'')
      | Some event \<Rightarrow>
          (case User_find s uid of
             None \<Rightarrow> Inl (NotFoundException ''User not found'')
           | Some user \<Rightarrow>
               (case EventUser_first (for_pair uid eid) s of
                  Some eventUser \<Rightarrow> Inr (EventUser_save_isFavorite eventUser True (other s))
                | None \<Rightarrow> EventUser_create now uid eid True False (other s))))"

section \<open>EventsService\<close>

text \<open>The options of \<open>getAll\<close>, each of them optional; page and limit are integers.\<close>

record GetEventsOptions =
  opt_page :: "int option"
  opt_limit :: "int option"
  opt_type :: "string option"
  opt_subtype :: "string option"
  opt_city :: "string option"
  opt_startDate :: "date option"
  opt_endDate :: "date option"
  opt_userId :: "nat option"

subsection \<open>Strings\<close>

text \<open>\<open>String.prototype.trim\<close>, on the ASCII white space characters.\<close>

definition is_space :: "char \<Rightarrow> bool" where
  "is_space c = (c \<in> set [CHR '' '', CHR 0x09, CHR 0x0A, CHR 0x0B, CHR 0x0C, CHR 0x0D])"

definition trim :: "string \<Rightarrow> string" where
  "trim str = rev (dropWhile is_space (rev (dropWhile is_space str)))"

text \<open>Case folding, on the ASCII letters.\<close>

definition to_lower :: "char \<Rightarrow> char" where
  "to_lower c =
     (case map_of (zip ''ABCDEFGHIJKLMNOPQRSTUVWXYZ'' ''abcdefghijklmnopqrstuvwxyz'') c of
        Some l \<Rightarrow> l
      | None \<Rightarrow> c)"

text \<open>
  SQL \<open>LIKE\<close>: in the pattern \<open>%\<close> stands for any run of characters, \<open>_\<close> for any one
  character, and a backslash takes the next character literally.
\<close>

fun like_match :: "string \<Rightarrow> string \<Rightarrow> bool" where
  "like_match [] str = (str = [])"
| "like_match (p # ps) [] =
     (if p = CHR ''%'' then like_match ps [] else False)"
| "like_match (p # ps) (c # cs) =
     (if p = CHR ''%'' then like_match ps (c # cs) \<or> like_match (p # ps) cs
      else if p = CHR ''_'' then like_match ps cs
      else if p = CHR 0x5C then
        (case ps of [] \<Rightarrow> c = p \<and> cs = [] | q # qs \<Rightarrow> c = q \<and> like_match qs cs)
      else c = p \<and> like_match ps cs)"

text \<open>\<open>whereILike(column, pattern)\<close>: \<open>LIKE\<close> without regard to case.\<close>

definition ilike :: "string \<Rightarrow> string \<Rightarrow> bool" where
  "ilike pattern str = like_match (map to_lower pattern) (map to_lower str)"

subsection \<open>The listing\<close>

text \<open>
  \<open>if (type)\<close>, \<open>if (city)\<close>: an absent value and the empty string are falsy;
  \<open>if (userId)\<close>: an absent value and 0 are falsy; a date object is truthy.
\<close>

definition where_type :: "string option \<Rightarrow> event list \<Rightarrow> event list" where
  "where_type t q =
     (case t of
        None \<Rightarrow> q
      | Some v \<Rightarrow> if v = [] then q else filter (\<lambda>e. ev_type e = v) q)"

definition where_subtype :: "string option \<Rightarrow> event list \<Rightarrow> event list" where
  "where_subtype t q =
     (case t of
        None \<Rightarrow> q
      | Some v \<Rightarrow> if v = [] then q else filter (\<lambda>e. ev_subtype e = v) q)"

definition where_city :: "string option \<Rightarrow> event list \<Rightarrow> event list" where
  "where_city c q =
     (case c of
        None \<Rightarrow> q
      | Some city \<Rightarrow>
          if city = [] then q
          else
            (let normalizedCity = trim city in
             filter (\<lambda>e. ev_city e = normalizedCity \<or>
                          ilike (''%'' @ normalizedCity @ ''%'') (ev_city e)) q))"

definition where_startDate :: "date option \<Rightarrow> event list \<Rightarrow> event list" where
  "where_startDate d q =
     (case d of None \<Rightarrow> q | Some startDate \<Rightarrow> filter (\<lambda>e. ev_startDate e \<ge> startDate) q)"

text \<open>
  \<open>end_date\<close> is nullable; a comparison with a missing value selects nothing.  Of the
  date objects of the options only the calendar day reaches the query (\<open>toSQLDate\<close>).
\<close>

definition where_endDate :: "date option \<Rightarrow> event list \<Rightarrow> event list" where
  "where_endDate d q =
     (case d of
        None \<Rightarrow> q
      | Some endDate \<Rightarrow>
          filter (\<lambda>e. case ev_endDate e of None \<Rightarrow> False | Some d' \<Rightarrow> d' \<le> endDate) q)"

text \<open>
  \<open>preload('participants', q => q.where('userId', userId))\<close>: each event comes with its
  participation rows of that user; without a user nothing is loaded.
\<close>

definition preload_participants ::
  "store \<Rightarrow> nat option \<Rightarrow> event \<Rightarrow> event \<times> event_user list option" where
  "preload_participants s u e =
     (case u of
        None \<Rightarrow> (e, None)
      | Some uid \<Rightarrow>
          if uid = 0 then (e, None)
          else (e, Some (filter (\<lambda>r. eventId r = ev_id e \<and> userId r = uid) (event_users s))))"

text \<open>The query of \<open>getAll\<close> before it is cut into pages.\<close>

definition getAll_query :: "store \<Rightarrow> GetEventsOptions \<Rightarrow> event list" where
  "getAll_query s options =
     sort_key ev_startDate
       (where_endDate (opt_endDate options)
         (where_startDate (opt_startDate options)
           (where_city (opt_city options)
             (where_subtype (opt_subtype options)
               (where_type (opt_type options) (events s))))))"

definition getAll ::
  "store \<Rightarrow> GetEventsOptions \<Rightarrow> error + (event \<times> event_user list option) paginator" where
  "getAll s options =
     (let page = (case opt_page options of None \<Rightarrow> 1 | Some v \<Rightarrow> v);
          limit = (case opt_limit options of None \<Rightarrow> 20 | Some v \<Rightarrow> v);
          maxLimit = 100;
          safeLimit = min limit maxLimit
      in paginate page safeLimit
           (map (preload_participants s (opt_userId options)) (getAll_query s options)))"

section \<open>GetEventsController\<close>

record meta =
  m_total :: nat
  m_perPage :: int
  m_currentPage :: int
  m_lastPage :: num
  m_firstPage :: int
  m_hasPages :: bool
  m_hasMorePages :: bool
  m_isEmpty :: bool

datatype response =
    Ok string "(event \<times> event_user list option) list" meta
  | BadRequest string "string list"
  | InternalServerError string error

text \<open>
  The request's validator is taken as given: \<open>validated\<close> is what it returns, the
  messages of a failed validation or the query parameters.  \<open>auth\<close> is the id of the
  authenticated user, if any.
\<close>

definition handle :: "store \<Rightarrow> string list + GetEventsOptions \<Rightarrow> nat option \<Rightarrow> response" where
  "handle s validated auth =
     (case validated of
        Inl messages \<Rightarrow> BadRequest ''Validation failed'' messages
      | Inr queryParams \<Rightarrow>
          (let userId = auth;
               eventsOptions = queryParams\<lparr>opt_userId := userId\<rparr>
           in case getAll s eventsOptions of
                Inl err \<Rightarrow> InternalServerError ''An error occurred while retrieving events'' err
              | Inr paginated \<Rightarrow>
                  Ok ''Events retrieved successfully'' (pg_rows paginated)
                    \<lparr>m_total = pg_total paginated, m_perPage = pg_perPage paginated,
                     m_currentPage = pg_currentPage paginated, m_lastPage = lastPage paginated,
                     m_firstPage = 1, m_hasPages = hasPages paginated,
                     m_hasMorePages = hasMorePages paginated, m_isEmpty = isEmpty paginated\<rparr>))"

section \<open>BookmarksService: the bookmarks of a user\<close>

text \<open>
  \<open>Event.query().join('event_users', 'events.id', 'event_users.event_id')\<close>: one joined row
  for every event and every participation row of that event.
\<close>

definition join_event_users :: "store \<Rightarrow> (event \<times> event_user) list" where
  "join_event_users s =
     concat (map (\<lambda>e. map (Pair e) (filter (\<lambda>r. ev_id e = eventId r) (event_users s)))
       (events s))"

text \<open>
  The query of \<open>getUserBookmarks\<close> before it is cut into pages, each event with the
  participation row it was joined to.
\<close>

definition getUserBookmarks_query :: "store \<Rightarrow> nat \<Rightarrow> (event \<times> event_user) list" where
  "getUserBookmarks_query s uid =
     sort_key (\<lambda>(e, r). - int (createdAt r))
       (filter (\<lambda>(e, r). userId r = uid \<and> isFavorite r) (join_event_users s))"

text \<open>
  The query names no columns, so a joined row has every column of \<open>events\<close> followed by
  every column of \<open>event_users\<close>, and the \<open>Event\<close> that is built from it takes a
  column that both tables have from \<open>event_users\<close>, which comes last.  Both tables
  have \<open>id\<close>, \<open>created_at\<close> and \<open>updated_at\<close>; of these the events of the model
  keep \<open>id\<close>.
\<close>

definition event_of_joined_row :: "event \<times> event_user \<Rightarrow> event" where
  "event_of_joined_row = (\<lambda>(e, r). e\<lparr>ev_id := eu_id r\<rparr>)"

text \<open>\<open>page\<close> and \<open>limit\<close> default to 1 and 20.\<close>

definition getUserBookmarks ::
  "store \<Rightarrow> nat \<Rightarrow> int option \<Rightarrow> int option \<Rightarrow> error + event paginator" where
  "getUserBookmarks s uid page limit =
     paginate (case page of None \<Rightarrow> 1 | Some v \<Rightarrow> v) (case limit of None \<Rightarrow> 20 | Some v \<Rightarrow> v)
       (map event_of_joined_row (getUserBookmarks_query s uid))"

section \<open>Properties of stores and of events\<close>

text \<open>
  The store's own guarantees on \<open>event_users\<close>: primary keys are distinct and below the
  counter.
\<close>

definition pk_ok :: "store \<Rightarrow> bool" where
  "pk_ok s = (distinct (map eu_id (event_users s)) \<and>
              list_all (\<lambda>r. eu_id r < next_eu_id s) (event_users s))"

text \<open>The number of rows of a pair.\<close>

definition pair_count :: "store \<Rightarrow> nat \<Rightarrow> nat \<Rightarrow> nat" where
  "pair_count s u e = length (filter (for_pair u e) (event_users s))"

text \<open>No row selected by \<open>Q\<close> has both flags false.\<close>

definition flagged :: "(event_user \<Rightarrow> bool) \<Rightarrow> store \<Rightarrow> bool" where
  "flagged Q s = list_all (\<lambda>r. Q r \<longrightarrow> isFavorite r \<or> hasJoined r) (event_users s)"

text \<open>A filter without the characters that a \<open>LIKE\<close> pattern reads specially.\<close>

definition no_wildcards :: "string \<Rightarrow> bool" where
  "no_wildcards p = list_all (\<lambda>c. c \<noteq> CHR ''%'' \<and> c \<noteq> CHR ''_'' \<and> c \<noteq> CHR 0x5C) p"

text \<open>
  The city condition in the specification's words: the event's city \<open>c\<close> is the given
  city, or contains it without regard to case.
\<close>

definition city_matches_as_specified :: "string \<Rightarrow> string \<Rightarrow> bool" where
  "city_matches_as_specified city c =
     (c = city \<or> sublist (map to_lower city) (map to_lower c))"

text \<open>What \<open>getAll\<close> requires of an event, filter by filter.\<close>

definition satisfies_filters :: "GetEventsOptions \<Rightarrow> event \<Rightarrow> bool" where
  "satisfies_filters options e =
     ((\<forall>t. opt_type options = Some t \<and> t \<noteq> [] \<longrightarrow> ev_type e = t) \<and>
      (\<forall>t. opt_subtype options = Some t \<and> t \<noteq> [] \<longrightarrow> ev_subtype e = t) \<and>
      (\<forall>c. opt_city options = Some c \<and> c \<noteq> [] \<longrightarrow>
           ev_city e = trim c \<or> ilike (''%'' @ trim c @ ''%'') (ev_city e)) \<and>
      (\<forall>c. opt_city options = Some c \<and> c \<noteq> [] \<and> no_wildcards (trim c) \<longrightarrow>
           city_matches_as_specified (trim c) (ev_city e)) \<and>
      (\<forall>d. opt_startDate options = Some d \<longrightarrow> d \<le> ev_startDate e) \<and>
      (\<forall>d. opt_endDate options = Some d \<longrightarrow> (\<exists>d'. ev_endDate e = Some d' \<and> d' \<le> d)))"

section \<open>A sample store\<close>

text \<open>
  The seeder's data (an admin, a regular user, the event in Toulouse that both have as a
  favourite and the regular user has joined), and two more events.
\<close>

definition seed_store :: store where
  "seed_store =
     \<lparr>users = [\<lparr>usr_id = 1, usr_email = ''admin@spotlight.com''\<rparr>,
               \<lparr>usr_id = 2, usr_email = ''user@spotlight.com''\<rparr>],
      events =
        [\<lparr>ev_id = 1, ev_title = ''Live @ Bikini'', ev_startDate = 20, ev_endDate = Some 20,
          ev_city = ''Toulouse'', ev_type = ''concert'', ev_subtype = ''rock''\<rparr>,
         \<lparr>ev_id = 2, ev_title = ''Jazz in Paris'', ev_startDate = 10, ev_endDate = Some 12,
          ev_city = ''Paris'', ev_type = ''festival'', ev_subtype = ''jazz''\<rparr>,
         \<lparr>ev_id = 3, ev_title = ''Open air'', ev_startDate = 30, ev_endDate = None,
          ev_city = ''Toulouse'', ev_type = ''concert'', ev_subtype = ''techno''\<rparr>],
      event_users =
        [\<lparr>eu_id = 1, userId = 1, eventId = 1, isFavorite = True, hasJoined = False,
          createdAt = 100\<rparr>,
         \<lparr>eu_id = 2, userId = 2, eventId = 1, isFavorite = True, hasJoined = True,
          createdAt = 101\<rparr>],
      next_eu_id = 3\<rparr>"

text \<open>No filter, no page, no limit, no user.\<close>

definition no_options :: GetEventsOptions where
  "no_options =
     \<lparr>opt_page = None, opt_limit = None, opt_type = None, opt_subtype = None,
      opt_city = None, opt_startDate = None, opt_endDate = None, opt_userId = None\<rparr>"

text \<open>
  The seeded store after the regular user has bookmarked the third event and then the
  second, and the admin has joined the second.
\<close>

definition bookmarks_store :: store where
  "bookmarks_store =
     seed_store
       \<lparr>event_users := event_users seed_store @
          [\<lparr>eu_id = 3, userId = 2, eventId = 3, isFavorite = True, hasJoined = False,
            createdAt = 200\<rparr>,
           \<lparr>eu_id = 4, userId = 2, eventId = 2, isFavorite = True, hasJoined = False,
            createdAt = 300\<rparr>,
           \<lparr>eu_id = 5, userId = 1, eventId = 2, isFavorite = False, hasJoined = True,
            createdAt = 400\<rparr>],
        next_eu_id := 6\<rparr>"

section \<open>The ledger\<close>

subsection \<open>The writes, one by one\<close>

lemma update_isFavorite_simps [simp]:
  "eu_id (update_isFavorite i v r) = eu_id r"
  "userId (update_isFavorite i v r) = userId r"
  "eventId (update_isFavorite i v r) = eventId r"
  "hasJoined (update_isFavorite i v r) = hasJoined r"
  "createdAt (update_isFavorite i v r) = createdAt r"
  "for_pair u e (update_isFavorite i v r) = for_pair u e r"
  by (simp_all add: update_isFavorite_def for_pair_def)

lemma update_isFavorite_own [simp]: "update_isFavorite (eu_id x) v x = x\<lparr>isFavorite := v\<rparr>"
  by (simp add: update_isFavorite_def)

lemma update_isFavorite_twice [simp]:
  "update_isFavorite i v (update_isFavorite i v r) = update_isFavorite i v r"
  by (simp add: update_isFavorite_def)

lemma save_simps [simp]:
  "fst (EventUser_save_isFavorite x v s) = x\<lparr>isFavorite := v\<rparr>"
  "users (snd (EventUser_save_isFavorite x v s)) = users s"
  "events (snd (EventUser_save_isFavorite x v s)) = events s"
  "next_eu_id (snd (EventUser_save_isFavorite x v s)) = next_eu_id s"
  "event_users (snd (EventUser_save_isFavorite x v s)) =
     map (update_isFavorite (eu_id x) v) (event_users s)"
  by (simp_all add: EventUser_save_isFavorite_def)

lemma filter_map_stable:
  "(\<And>x. P (f x) = P x) \<Longrightarrow> filter P (map f xs) = map f (filter P xs)"
  by (induction xs) auto

lemma find_map_stable:
  "(\<And>x. P (f x) = P x) \<Longrightarrow> find P (map f xs) = map_option f (find P xs)"
  by (induction xs) auto

lemma save_pair_count [simp]:
  "pair_count (snd (EventUser_save_isFavorite x v s)) u e = pair_count s u e"
  by (simp add: pair_count_def filter_map_stable)

lemma save_pk_ok [simp]: "pk_ok (snd (EventUser_save_isFavorite x v s)) = pk_ok s"
  by (simp add: pk_ok_def list_all_iff comp_def)

lemma delete_pair_count: "pair_count (EventUser_delete x s) u e \<le> pair_count s u e"
proof -
  have "length (filter (for_pair u e) (filter P rows)) \<le> length (filter (for_pair u e) rows)"
    for P rows
    by (induction rows) auto
  then show ?thesis by (simp add: pair_count_def EventUser_delete_def)
qed

lemma delete_pk_ok: "pk_ok s \<Longrightarrow> pk_ok (EventUser_delete x s)"
  by (auto simp: pk_ok_def EventUser_delete_def list_all_iff distinct_map_filter)

lemma create_InrD:
  "EventUser_create now u e f j s = Inr (r, s') \<Longrightarrow>
   r = \<lparr>eu_id = next_eu_id s, userId = u, eventId = e, isFavorite = f, hasJoined = j,
        createdAt = now\<rparr> \<and>
   event_users s' = event_users s @ [r] \<and> next_eu_id s' = Suc (next_eu_id s) \<and>
   users s' = users s \<and> events s' = events s \<and>
   \<not> list_ex (for_pair u e) (event_users s)"
  by (auto simp: EventUser_create_def Let_def split: if_splits)

lemma create_pk_ok:
  assumes "pk_ok s" and "EventUser_create now u e f j s = Inr (r, s')"
  shows "pk_ok s'"
proof -
  note c = create_InrD[OF assms(2)]
  from assms(1) have d: "distinct (map eu_id (event_users s))"
    and b: "\<forall>q\<in>set (event_users s). eu_id q < next_eu_id s"
    by (simp_all add: pk_ok_def list_all_iff)
  from b have "next_eu_id s \<notin> eu_id ` set (event_users s)" by auto
  with d b c show ?thesis
    by (auto simp: pk_ok_def list_all_iff less_SucI)
qed

lemma create_pair_count:
  assumes "EventUser_create now u e f j s = Inr (r, s')"
  shows "pair_count s' u' e' = (if u' = u \<and> e' = e then 1 else pair_count s u' e')"
proof -
  note c = create_InrD[OF assms]
  from c have "filter (for_pair u e) (event_users s) = []"
    by (simp add: list_ex_iff filter_empty_conv)
  with c show ?thesis
    by (auto simp: pair_count_def for_pair_def)
qed

subsection \<open>The two methods, case by case\<close>

lemma find_SomeD: "find P xs = Some x \<Longrightarrow> P x \<and> x \<in> set xs"
  by (induction xs) (auto split: if_splits)

lemma find_None_filter: "find P xs = None \<Longrightarrow> filter P xs = []"
  by (induction xs) (auto split: if_splits)

lemma find_append_None: "find P xs = None \<Longrightarrow> find P (xs @ ys) = find P ys"
  by (induction xs) (auto split: if_splits)

lemma find_filter_single:
  assumes "find (\<lambda>r. P r \<and> Q r) xs = Some x" and "length (filter P xs) \<le> 1"
  shows "filter P xs = [x]"
  using assms
proof (induction xs)
  case Nil
  then show ?case by simp
next
  case (Cons a xs)
  show ?case
  proof (cases "P a")
    case True
    with Cons.prems(2) have e: "filter P xs = []" by simp
    then have "find (\<lambda>r. P r \<and> Q r) xs = None"
      by (auto simp: find_None_iff filter_empty_conv)
    with Cons.prems(1) True e show ?thesis by (auto split: if_splits)
  next
    case False
    with Cons show ?thesis by simp
  qed
qed

lemma map_changes: "x \<in> set xs \<Longrightarrow> f x \<noteq> x \<Longrightarrow> map f xs \<noteq> xs"
  by (induction xs) auto

lemma addBookmark_existing:
  assumes "Event_find s e \<noteq> None" and "User_find s u \<noteq> None"
    and "find (for_pair u e) (event_users s) = Some x"
  shows "addBookmark now s u e = Inr (EventUser_save_isFavorite x True s)"
  using assms by (auto simp: addBookmark_def EventUser_first_def)

lemma addBookmark_new:
  assumes "Event_find s e \<noteq> None" and "User_find s u \<noteq> None"
    and "find (for_pair u e) (event_users s) = None"
  shows "addBookmark now s u e =
     Inr (\<lparr>eu_id = next_eu_id s, userId = u, eventId = e, isFavorite = True,
            hasJoined = False, createdAt = now\<rparr>,
          s\<lparr>event_users := event_users s @
               [\<lparr>eu_id = next_eu_id s, userId = u, eventId = e, isFavorite = True,
                 hasJoined = False, createdAt = now\<rparr>],
            next_eu_id := Suc (next_eu_id s)\<rparr>)"
proof -
  from assms(3) have "\<not> list_ex (for_pair u e) (event_users s)"
    by (simp add: list_ex_iff find_None_iff)
  with assms show ?thesis
    by (auto simp: addBookmark_def EventUser_first_def EventUser_create_def Let_def)
qed

lemma addBookmark_InrD:
  assumes "addBookmark now s u e = Inr (r, s')"
  shows "(\<exists>x. s' = snd (EventUser_save_isFavorite x True s)) \<or>
         EventUser_create now u e True False s = Inr (r, s')"
proof (cases "EventUser_first (for_pair u e) s")
  case None
  with assms show ?thesis
    by (simp add: addBookmark_def split: option.splits)
next
  case (Some x)
  with assms have "EventUser_save_isFavorite x True s = (r, s')"
    by (simp add: addBookmark_def split: option.splits)
  then have "s' = snd (EventUser_save_isFavorite x True s)" by simp
  then show ?thesis by blast
qed

lemma removeBookmark_found:
  assumes "find (\<lambda>r. for_pair u e r \<and> isFavorite r) (event_users s) = Some x"
  shows "removeBookmark s u e =
     (True, if hasJoined x then snd (EventUser_save_isFavorite x False s)
            else EventUser_delete x s)"
  using assms by (simp add: removeBookmark_def EventUser_first_def)

lemma removeBookmark_none:
  assumes "find (\<lambda>r. for_pair u e r \<and> isFavorite r) (event_users s) = None"
  shows "removeBookmark s u e = (False, s)"
  using assms by (simp add: removeBookmark_def EventUser_first_def)

subsection \<open>One row per pair, and no row with both flags false\<close>

lemma exec_call_pk_ok:
  assumes "pk_ok s"
  shows "pk_ok (exec_call s c)"
proof (cases c)
  case (AddBookmark now u e)
  show ?thesis
  proof (cases "addBookmark now s u e")
    case (Inl err)
    with assms show ?thesis by (simp add: AddBookmark)
  next
    case (Inr p)
    obtain r s' where p: "p = (r, s')" by (cases p)
    from addBookmark_InrD[OF Inr[unfolded p]] assms have "pk_ok s'"
      by (auto dest: create_pk_ok)
    then show ?thesis by (simp add: AddBookmark Inr p)
  qed
next
  case (RemoveBookmark u e)
  from assms show ?thesis
    by (simp add: RemoveBookmark removeBookmark_def delete_pk_ok split: option.splits)
qed

lemma exec_call_pair_count:
  assumes "pair_count s u e \<le> 1"
  shows "pair_count (exec_call s c) u e \<le> 1"
proof (cases c)
  case (AddBookmark now u' e')
  show ?thesis
  proof (cases "addBookmark now s u' e'")
    case (Inl err)
    with assms show ?thesis by (simp add: AddBookmark)
  next
    case (Inr p)
    obtain r s' where p: "p = (r, s')" by (cases p)
    from addBookmark_InrD[OF Inr[unfolded p]] consider
      (upd) x where "s' = snd (EventUser_save_isFavorite x True s)"
      | (ins) "EventUser_create now u' e' True False s = Inr (r, s')"
      by blast
    then have "pair_count s' u e \<le> 1"
    proof cases
      case upd
      with assms show ?thesis by simp
    next
      case ins
      with assms show ?thesis by (simp add: create_pair_count)
    qed
    then show ?thesis by (simp add: AddBookmark Inr p)
  qed
next
  case (RemoveBookmark u' e')
  have "pair_count (snd (removeBookmark s u' e')) u e \<le> pair_count s u e"
    by (simp add: removeBookmark_def delete_pair_count split: option.splits)
  with assms show ?thesis by (simp add: RemoveBookmark)
qed

lemma exec_call_flagged:
  assumes Q: "\<And>i v r. Q (update_isFavorite i v r) = Q r"
    and pk: "pk_ok s" and fl: "flagged Q s"
  shows "flagged Q (exec_call s c)"
proof (cases c)
  case (AddBookmark now u e)
  show ?thesis
  proof (cases "addBookmark now s u e")
    case (Inl err)
    with fl show ?thesis by (simp add: AddBookmark)
  next
    case (Inr p)
    obtain r s' where p: "p = (r, s')" by (cases p)
    from addBookmark_InrD[OF Inr[unfolded p]] consider
      (upd) x where "s' = snd (EventUser_save_isFavorite x True s)"
      | (ins) "EventUser_create now u e True False s = Inr (r, s')"
      by blast
    then have "flagged Q s'"
    proof cases
      case upd
      with fl show ?thesis
        by (auto simp: flagged_def list_all_iff Q update_isFavorite_def)
    next
      case ins
      from create_InrD[OF ins] fl show ?thesis
        by (auto simp: flagged_def list_all_iff)
    qed
    then show ?thesis by (simp add: AddBookmark Inr p)
  qed
next
  case (RemoveBookmark u e)
  show ?thesis
  proof (cases "find (\<lambda>r. for_pair u e r \<and> isFavorite r) (event_users s)")
    case None
    with fl show ?thesis by (simp add: RemoveBookmark removeBookmark_none)
  next
    case (Some x)
    then have x: "x \<in> set (event_users s)"
      by (auto dest: find_SomeD)
    from pk have inj: "inj_on eu_id (set (event_users s))"
      by (simp add: pk_ok_def distinct_map)
    show ?thesis
    proof (cases "hasJoined x")
      case True
      have "isFavorite r' \<or> hasJoined r'"
        if "r' \<in> set (map (update_isFavorite (eu_id x) False) (event_users s))" "Q r'" for r'
      proof -
        from that(1) obtain r where r: "r \<in> set (event_users s)"
          and r': "r' = update_isFavorite (eu_id x) False r"
          by auto
        show ?thesis
        proof (cases "eu_id r = eu_id x")
          case eq: True
          with inj r x have "r = x" by (auto dest: inj_onD)
          with True r' show ?thesis by simp
        next
          case False
          with r' have "r' = r" by (simp add: update_isFavorite_def)
          with fl r that(2) show ?thesis by (auto simp: flagged_def list_all_iff)
        qed
      qed
      then show ?thesis
        by (simp add: RemoveBookmark removeBookmark_found[OF Some] True flagged_def list_all_iff)
    next
      case False
      with fl show ?thesis
        by (auto simp: RemoveBookmark removeBookmark_found[OF Some] flagged_def list_all_iff
            EventUser_delete_def)
    qed
  qed
qed

lemma run_calls_invariant:
  assumes Q: "\<And>i v r. Q (update_isFavorite i v r) = Q r"
  shows "pk_ok s \<Longrightarrow> pair_count s u e \<le> 1 \<Longrightarrow> flagged Q s \<Longrightarrow>
    pk_ok (run_calls s cs) \<and> pair_count (run_calls s cs) u e \<le> 1 \<and> flagged Q (run_calls s cs)"
proof (induction cs arbitrary: s)
  case Nil
  then show ?case by (simp add: run_calls_def)
next
  case (Cons c cs)
  have 1: "pk_ok (exec_call s c)"
    using Cons.prems(1) by (rule exec_call_pk_ok)
  have 2: "pair_count (exec_call s c) u e \<le> 1"
    using Cons.prems(2) by (rule exec_call_pair_count)
  have 3: "flagged Q (exec_call s c)"
    using Q Cons.prems(1,3) by (rule exec_call_flagged)
  from Cons.IH[OF 1 2 3] show ?case by (simp add: run_calls_def)
qed

text \<open>
  Claim C1.  Start from a store that has no participation row for the user \<open>u\<close> and the
  event \<open>e\<close>, and run any sequence of \<open>addBookmark\<close> and \<open>removeBookmark\<close> calls,
  for any users and events.  After every prefix of the sequence the store holds at most one
  row for \<open>(u, e)\<close>, and no row for \<open>(u, e)\<close> has both \<open>isFavorite\<close> and
  \<open>hasJoined\<close> false; when no row at all had both flags false at the start, no row has
  afterwards.
\<close>

theorem no_duplicate_no_all_false:
  assumes "pk_ok s" and "pair_count s u e = 0"
  shows "pair_count (run_calls s (take n cs)) u e \<le> 1 \<and>
         list_all (\<lambda>r. for_pair u e r \<longrightarrow> isFavorite r \<or> hasJoined r)
           (event_users (run_calls s (take n cs))) \<and>
         (list_all (\<lambda>r. isFavorite r \<or> hasJoined r) (event_users s) \<longrightarrow>
          list_all (\<lambda>r. isFavorite r \<or> hasJoined r) (event_users (run_calls s (take n cs))))"
proof -
  from assms(2) have f: "flagged (for_pair u e) s"
    by (auto simp: flagged_def pair_count_def list_all_iff filter_empty_conv)
  from assms(2) have c: "pair_count s u e \<le> 1" by simp
  have 1: "pair_count (run_calls s (take n cs)) u e \<le> 1 \<and>
           flagged (for_pair u e) (run_calls s (take n cs))"
    using run_calls_invariant[of "for_pair u e" s u e "take n cs", OF _ assms(1) c f]
    by simp
  have 2: "flagged (\<lambda>r. True) (run_calls s (take n cs))" if "flagged (\<lambda>r. True) s"
    using run_calls_invariant[of "\<lambda>r. True" s u e "take n cs", OF _ assms(1) c that]
    by simp
  from 1 2 show ?thesis by (simp add: flagged_def)
qed

theorem no_duplicate_no_all_false_witness:
  "pk_ok seed_store \<and> pair_count seed_store 2 3 = 0 \<and>
   list_all (\<lambda>r. isFavorite r \<or> hasJoined r) (event_users seed_store) \<and>
   pair_count (run_calls seed_store (take 3
       [AddBookmark 200 2 3, AddBookmark 201 2 3, RemoveBookmark 2 1, RemoveBookmark 2 3])) 2 3
     \<le> 1 \<and>
   list_all (\<lambda>r. for_pair 2 3 r \<longrightarrow> isFavorite r \<or> hasJoined r)
     (event_users (run_calls seed_store (take 3
       [AddBookmark 200 2 3, AddBookmark 201 2 3, RemoveBookmark 2 1, RemoveBookmark 2 3]))) \<and>
   list_all (\<lambda>r. isFavorite r \<or> hasJoined r)
     (event_users (run_calls seed_store (take 3
       [AddBookmark 200 2 3, AddBookmark 201 2 3, RemoveBookmark 2 1, RemoveBookmark 2 3])))"
proof -
  have h1: "pk_ok seed_store"
    by (simp add: seed_store_def pk_ok_def)
  have h2: "pair_count seed_store 2 3 = 0"
    by (simp add: seed_store_def pair_count_def for_pair_def)
  have h3: "list_all (\<lambda>r. isFavorite r \<or> hasJoined r) (event_users seed_store)"
    by (simp add: seed_store_def)
  from no_duplicate_no_all_false[OF h1 h2] h1 h2 h3 show ?thesis
    by blast
qed

subsection \<open>addBookmark\<close>

lemma addBookmark_effect:
  assumes uniq: "pair_count s u e \<le> 1"
    and ex: "Event_find s e \<noteq> None" "User_find s u \<noteq> None"
  shows "\<exists>r s'. addBookmark now s u e = Inr (r, s') \<and>
           filter (for_pair u e) (event_users s') = [r] \<and>
           find (for_pair u e) (event_users s') = Some r \<and> isFavorite r \<and>
           events s' = events s \<and> users s' = users s \<and>
           (case find (for_pair u e) (event_users s) of
              Some x \<Rightarrow>
                r = x\<lparr>isFavorite := True\<rparr> \<and>
                event_users s' = map (update_isFavorite (eu_id x) True) (event_users s)
            | None \<Rightarrow>
                r = \<lparr>eu_id = next_eu_id s, userId = u, eventId = e, isFavorite = True,
                     hasJoined = False, createdAt = now\<rparr> \<and>
                event_users s' = event_users s @ [r] \<and>
                next_eu_id s' = Suc (next_eu_id s))"
proof (cases "find (for_pair u e) (event_users s)")
  case None
  note new = addBookmark_new[OF ex None, of now]
  show ?thesis
    unfolding new using None
    by (simp add: find_None_filter find_append_None for_pair_def)
next
  case (Some x)
  let ?f = "update_isFavorite (eu_id x) True"
  have fx: "filter (for_pair u e) (event_users s) = [x]"
    using find_filter_single[of "for_pair u e" "\<lambda>r. True"] Some uniq
    by (simp add: pair_count_def)
  have res: "addBookmark now s u e = Inr (x\<lparr>isFavorite := True\<rparr>, snd (EventUser_save_isFavorite x True s))"
    using ex Some by (simp add: addBookmark_existing EventUser_save_isFavorite_def)
  have 1: "filter (for_pair u e) (map ?f (event_users s)) = [x\<lparr>isFavorite := True\<rparr>]"
    using fx by (simp add: filter_map_stable)
  have 2: "find (for_pair u e) (map ?f (event_users s)) = Some (x\<lparr>isFavorite := True\<rparr>)"
    using Some by (simp add: find_map_stable)
  from res 1 2 Some show ?thesis by simp
qed

text \<open>
  Claim C2.  \<open>addBookmark\<close> throws \<open>NotFoundException\<close> when the event or the user is
  missing.  Otherwise it returns a record \<open>r\<close> that is afterwards the one record of the pair
  and has \<open>isFavorite\<close> set.  When the pair had a record, \<open>r\<close> is that record with
  \<open>isFavorite\<close> set, no row is added and no row's \<open>hasJoined\<close> changes; when it had none,
  one row is added, which is \<open>r\<close>, with \<open>hasJoined\<close> false.
\<close>

theorem addBookmark_contract:
  assumes "pair_count s u e \<le> 1"
  shows "(Event_find s e = None \<longrightarrow>
            addBookmark now s u e = Inl (NotFoundException ''Event not found'')) \<and>
         (Event_find s e \<noteq> None \<and> User_find s u = None \<longrightarrow>
            addBookmark now s u e = Inl (NotFoundException ''User not found'')) \<and>
         (Event_find s e \<noteq> None \<and> User_find s u \<noteq> None \<longrightarrow>
            (\<exists>r s'. addBookmark now s u e = Inr (r, s') \<and>
               filter (for_pair u e) (event_users s') = [r] \<and> isFavorite r \<and>
               (case find (for_pair u e) (event_users s) of
                  Some x \<Rightarrow>
                    r = x\<lparr>isFavorite := True\<rparr> \<and>
                    length (event_users s') = length (event_users s) \<and>
                    map hasJoined (event_users s') = map hasJoined (event_users s)
                | None \<Rightarrow>
                    \<not> hasJoined r \<and> event_users s' = event_users s @ [r])))"
proof (intro conjI impI)
  assume "Event_find s e = None"
  then show "addBookmark now s u e = Inl (NotFoundException ''Event not found'')"
    by (simp add: addBookmark_def)
next
  assume "Event_find s e \<noteq> None \<and> User_find s u = None"
  then show "addBookmark now s u e = Inl (NotFoundException ''User not found'')"
    by (auto simp: addBookmark_def)
next
  assume ex: "Event_find s e \<noteq> None \<and> User_find s u \<noteq> None"
  from addBookmark_effect[OF assms, of now] ex obtain r s' where
    a: "addBookmark now s u e = Inr (r, s')"
      "filter (for_pair u e) (event_users s') = [r]" "isFavorite r"
    and c: "case find (for_pair u e) (event_users s) of
              Some x \<Rightarrow>
                r = x\<lparr>isFavorite := True\<rparr> \<and>
                event_users s' = map (update_isFavorite (eu_id x) True) (event_users s)
            | None \<Rightarrow>
                r = \<lparr>eu_id = next_eu_id s, userId = u, eventId = e, isFavorite = True,
                     hasJoined = False, createdAt = now\<rparr> \<and>
                event_users s' = event_users s @ [r] \<and>
                next_eu_id s' = Suc (next_eu_id s)"
    by blast
  from c have "case find (for_pair u e) (event_users s) of
                  Some x \<Rightarrow>
                    r = x\<lparr>isFavorite := True\<rparr> \<and>
                    length (event_users s') = length (event_users s) \<and>
                    map hasJoined (event_users s') = map hasJoined (event_users s)
                | None \<Rightarrow>
                    \<not> hasJoined r \<and> event_users s' = event_users s @ [r]"
    by (auto simp: comp_def split: option.splits)
  with a show "\<exists>r s'. addBookmark now s u e = Inr (r, s') \<and>
               filter (for_pair u e) (event_users s') = [r] \<and> isFavorite r \<and>
               (case find (for_pair u e) (event_users s) of
                  Some x \<Rightarrow>
                    r = x\<lparr>isFavorite := True\<rparr> \<and>
                    length (event_users s') = length (event_users s) \<and>
                    map hasJoined (event_users s') = map hasJoined (event_users s)
                | None \<Rightarrow>
                    \<not> hasJoined r \<and> event_users s' = event_users s @ [r])"
    by blast
qed

theorem addBookmark_contract_witness:
  "pair_count seed_store 2 1 \<le> 1 \<and> pair_count seed_store 2 9 \<le> 1 \<and>
   pair_count seed_store 9 1 \<le> 1 \<and> pair_count seed_store 1 3 \<le> 1 \<and>
   addBookmark 300 seed_store 2 9 = Inl (NotFoundException ''Event not found'') \<and>
   addBookmark 300 seed_store 9 1 = Inl (NotFoundException ''User not found'') \<and>
   (\<exists>s'. addBookmark 300 seed_store 2 1 =
            Inr (\<lparr>eu_id = 2, userId = 2, eventId = 1, isFavorite = True, hasJoined = True,
                   createdAt = 101\<rparr>, s') \<and>
          map hasJoined (event_users s') = [False, True]) \<and>
   (\<exists>r s'. addBookmark 300 seed_store 1 3 = Inr (r, s') \<and> isFavorite r \<and> \<not> hasJoined r \<and>
          filter (for_pair 1 3) (event_users s') = [r] \<and>
          event_users s' = event_users seed_store @ [r])"
proof -
  have h: "pair_count seed_store 2 1 \<le> 1" "pair_count seed_store 2 9 \<le> 1"
    "pair_count seed_store 9 1 \<le> 1" "pair_count seed_store 1 3 \<le> 1"
    by (simp_all add: seed_store_def pair_count_def for_pair_def)
  have e: "Event_find seed_store 9 = None" "Event_find seed_store 1 \<noteq> None"
    "Event_find seed_store 3 \<noteq> None" "User_find seed_store 9 = None"
    "User_find seed_store 2 \<noteq> None" "User_find seed_store 1 \<noteq> None"
    by (simp_all add: seed_store_def Event_find_def User_find_def)
  have f: "find (for_pair 2 1) (event_users seed_store) =
      Some \<lparr>eu_id = 2, userId = 2, eventId = 1, isFavorite = True, hasJoined = True,
            createdAt = 101\<rparr>"
    "find (for_pair 1 3) (event_users seed_store) = None"
    "map hasJoined (event_users seed_store) = [False, True]"
    by (simp_all add: seed_store_def for_pair_def)
  from addBookmark_contract[OF h(2), of 300] e
  have a: "addBookmark 300 seed_store 2 9 = Inl (NotFoundException ''Event not found'')"
    by blast
  from addBookmark_contract[OF h(3), of 300] e
  have b: "addBookmark 300 seed_store 9 1 = Inl (NotFoundException ''User not found'')"
    by blast
  from addBookmark_contract[OF h(1), of 300] e f
  have c: "\<exists>s'. addBookmark 300 seed_store 2 1 =
            Inr (\<lparr>eu_id = 2, userId = 2, eventId = 1, isFavorite = True, hasJoined = True,
                   createdAt = 101\<rparr>, s') \<and>
          map hasJoined (event_users s') = [False, True]"
    by auto
  from addBookmark_contract[OF h(4), of 300] e f
  have d: "\<exists>r s'. addBookmark 300 seed_store 1 3 = Inr (r, s') \<and> isFavorite r \<and> \<not> hasJoined r \<and>
          filter (for_pair 1 3) (event_users s') = [r] \<and>
          event_users s' = event_users seed_store @ [r]"
    by auto
  from h a b c d show ?thesis by blast
qed

text \<open>
  Claim C7.  For a user and an event that exist, a second \<open>addBookmark\<close>, at whatever
  time, returns the record that the first call returned and leaves the store exactly as
  the first call left it: one record for the pair, with \<open>isFavorite\<close> set, and every
  \<open>hasJoined\<close> as before the first call (false on a record that the first call created).
\<close>

theorem addBookmark_idempotent:
  assumes "Event_find s e \<noteq> None" and "User_find s u \<noteq> None"
    and "pk_ok s" and "pair_count s u e \<le> 1"
  shows "\<exists>r s'. addBookmark t1 s u e = Inr (r, s') \<and>
           addBookmark t2 s' u e = Inr (r, s') \<and>
           filter (for_pair u e) (event_users s') = [r] \<and> isFavorite r \<and>
           map hasJoined (event_users s') =
             map hasJoined (event_users s) @
               (if find (for_pair u e) (event_users s) = None then [False] else [])"
proof -
  from addBookmark_effect[OF assms(4,1,2), of t1] obtain r s' where
    1: "addBookmark t1 s u e = Inr (r, s')"
    and 2: "filter (for_pair u e) (event_users s') = [r]"
      "find (for_pair u e) (event_users s') = Some r" "isFavorite r"
    and 3: "events s' = events s" "users s' = users s"
    and c: "case find (for_pair u e) (event_users s) of
              Some x \<Rightarrow>
                r = x\<lparr>isFavorite := True\<rparr> \<and>
                event_users s' = map (update_isFavorite (eu_id x) True) (event_users s)
            | None \<Rightarrow>
                r = \<lparr>eu_id = next_eu_id s, userId = u, eventId = e, isFavorite = True,
                     hasJoined = False, createdAt = t1\<rparr> \<and>
                event_users s' = event_users s @ [r] \<and>
                next_eu_id s' = Suc (next_eu_id s)"
    by blast
  from 3 assms(1,2) have ex: "Event_find s' e \<noteq> None" "User_find s' u \<noteq> None"
    by (simp_all add: Event_find_def User_find_def)
  have again: "addBookmark t2 s' u e = Inr (EventUser_save_isFavorite r True s')"
    using ex 2(2) by (rule addBookmark_existing)
  have same: "map (update_isFavorite (eu_id r) True) (event_users s') = event_users s'"
  proof (cases "find (for_pair u e) (event_users s)")
    case None
    with c have r: "eu_id r = next_eu_id s" "event_users s' = event_users s @ [r]"
      by simp_all
    from assms(3) have "\<forall>q\<in>set (event_users s). eu_id q \<noteq> next_eu_id s"
      by (auto simp: pk_ok_def list_all_iff)
    then have "map (update_isFavorite (next_eu_id s) True) (event_users s) = event_users s"
      by (intro map_idI) (simp add: update_isFavorite_def)
    with r 2(3) show ?thesis by (simp add: update_isFavorite_def)
  next
    case (Some x)
    with c show ?thesis by (simp add: comp_def)
  qed
  from 2(3) have "r\<lparr>isFavorite := True\<rparr> = r" by simp
  with again same have 4: "addBookmark t2 s' u e = Inr (r, s')"
    by (simp add: EventUser_save_isFavorite_def)
  from c have 5: "map hasJoined (event_users s') =
             map hasJoined (event_users s) @
               (if find (for_pair u e) (event_users s) = None then [False] else [])"
    by (auto simp: comp_def split: option.splits)
  from 1 4 2(1,3) 5 show ?thesis by blast
qed

theorem addBookmark_idempotent_witness:
  "Event_find seed_store 3 \<noteq> None \<and> User_find seed_store 1 \<noteq> None \<and>
   pk_ok seed_store \<and> pair_count seed_store 1 3 \<le> 1 \<and>
   (\<exists>r s'. addBookmark 500 seed_store 1 3 = Inr (r, s') \<and>
      addBookmark 600 s' 1 3 = Inr (r, s') \<and>
      filter (for_pair 1 3) (event_users s') = [r] \<and> isFavorite r \<and>
      map hasJoined (event_users s') = [False, True, False])"
proof -
  have h1: "Event_find seed_store 3 \<noteq> None" and h2: "User_find seed_store 1 \<noteq> None"
    by (simp_all add: seed_store_def Event_find_def User_find_def)
  have h3: "pk_ok seed_store"
    by (simp add: seed_store_def pk_ok_def)
  have h4: "pair_count seed_store 1 3 \<le> 1"
    by (simp add: seed_store_def pair_count_def for_pair_def)
  have f: "find (for_pair 1 3) (event_users seed_store) = None"
    and j: "map hasJoined (event_users seed_store) = [False, True]"
    by (simp_all add: seed_store_def for_pair_def)
  from addBookmark_idempotent[OF h1 h2 h3 h4, of 500 600] f j
  have "\<exists>r s'. addBookmark 500 seed_store 1 3 = Inr (r, s') \<and>
      addBookmark 600 s' 1 3 = Inr (r, s') \<and>
      filter (for_pair 1 3) (event_users s') = [r] \<and> isFavorite r \<and>
      map hasJoined (event_users s') = [False, True, False]"
    by simp
  with h1 h2 h3 h4 show ?thesis by blast
qed

subsection \<open>removeBookmark\<close>

text \<open>
  Claim C3.  When the pair has no record with \<open>isFavorite\<close> set, \<open>removeBookmark\<close>
  returns false and the store is unchanged.  When it has one, \<open>removeBookmark\<close> returns
  true; a joined record stays, with \<open>isFavorite\<close> false and no row removed; a record that
  is not joined is deleted, and the pair has no row left.  The result is true exactly when
  the store has changed.
\<close>

theorem removeBookmark_contract:
  assumes uniq: "pair_count s u e \<le> 1"
  shows "(case find (\<lambda>r. for_pair u e r \<and> isFavorite r) (event_users s) of
            None \<Rightarrow> removeBookmark s u e = (False, s)
          | Some x \<Rightarrow>
              fst (removeBookmark s u e) = True \<and>
              (if hasJoined x
               then filter (for_pair u e) (event_users (snd (removeBookmark s u e))) =
                      [x\<lparr>isFavorite := False\<rparr>] \<and>
                    length (event_users (snd (removeBookmark s u e))) =
                      length (event_users s)
               else filter (for_pair u e) (event_users (snd (removeBookmark s u e))) = [] \<and>
                    length (event_users (snd (removeBookmark s u e))) <
                      length (event_users s))) \<and>
         (fst (removeBookmark s u e) \<longleftrightarrow> snd (removeBookmark s u e) \<noteq> s)"
proof (cases "find (\<lambda>r. for_pair u e r \<and> isFavorite r) (event_users s)")
  case None
  then show ?thesis by (simp add: removeBookmark_none)
next
  case (Some x)
  let ?P = "for_pair u e"
  from Some have x: "x \<in> set (event_users s)" "?P x" "isFavorite x"
    by (auto dest: find_SomeD)
  have fx: "filter ?P (event_users s) = [x]"
    using Some uniq by (simp add: find_filter_single pair_count_def)
  note rb = removeBookmark_found[OF Some]
  show ?thesis
  proof (cases "hasJoined x")
    case True
    let ?f = "update_isFavorite (eu_id x) False"
    have 1: "filter ?P (map ?f (event_users s)) = [x\<lparr>isFavorite := False\<rparr>]"
      using fx by (simp add: filter_map_stable)
    have "isFavorite (?f x) \<noteq> isFavorite x" using x(3) by simp
    then have "?f x \<noteq> x" by metis
    with x(1) have "map ?f (event_users s) \<noteq> event_users s"
      by (rule map_changes)
    have 3: "snd (EventUser_save_isFavorite x False s) \<noteq> s"
    proof
      assume "snd (EventUser_save_isFavorite x False s) = s"
      then have "event_users (snd (EventUser_save_isFavorite x False s)) = event_users s"
        by (rule arg_cong)
      with \<open>map ?f (event_users s) \<noteq> event_users s\<close> show False by simp
    qed
    from rb True 1 3 Some show ?thesis by simp
  next
    case False
    have 1: "filter ?P (filter (\<lambda>r. eu_id r \<noteq> eu_id x) (event_users s)) = []"
    proof -
      have "filter ?P (filter (\<lambda>r. eu_id r \<noteq> eu_id x) (event_users s)) =
            filter (\<lambda>r. eu_id r \<noteq> eu_id x) (filter ?P (event_users s))"
        by (simp add: conj_commute)
      with fx show ?thesis by simp
    qed
    have "x \<notin> set (event_users (EventUser_delete x s))"
      by (simp add: EventUser_delete_def)
    with x(1) have 3: "EventUser_delete x s \<noteq> s" by auto
    have 4: "length (filter (\<lambda>r. eu_id r \<noteq> eu_id x) (event_users s)) < length (event_users s)"
      using x(1) by (intro length_filter_less[of x]) auto
    from rb False 1 3 4 Some show ?thesis by (simp add: EventUser_delete_def)
  qed
qed

theorem removeBookmark_contract_witness:
  "pair_count seed_store 2 1 \<le> 1 \<and> pair_count seed_store 1 1 \<le> 1 \<and>
   pair_count seed_store 1 2 \<le> 1 \<and>
   removeBookmark seed_store 1 2 = (False, seed_store) \<and>
   fst (removeBookmark seed_store 2 1) \<and>
   filter (for_pair 2 1) (event_users (snd (removeBookmark seed_store 2 1))) =
     [\<lparr>eu_id = 2, userId = 2, eventId = 1, isFavorite = False, hasJoined = True,
       createdAt = 101\<rparr>] \<and>
   fst (removeBookmark seed_store 1 1) \<and>
   filter (for_pair 1 1) (event_users (snd (removeBookmark seed_store 1 1))) = [] \<and>
   snd (removeBookmark seed_store 1 1) \<noteq> seed_store"
proof -
  have h21: "pair_count seed_store 2 1 \<le> 1" and h11: "pair_count seed_store 1 1 \<le> 1"
    and h12: "pair_count seed_store 1 2 \<le> 1"
    by (simp_all add: seed_store_def pair_count_def for_pair_def)
  have f12: "find (\<lambda>r. for_pair 1 2 r \<and> isFavorite r) (event_users seed_store) = None"
    by (simp add: seed_store_def for_pair_def)
  have f21: "find (\<lambda>r. for_pair 2 1 r \<and> isFavorite r) (event_users seed_store) =
      Some \<lparr>eu_id = 2, userId = 2, eventId = 1, isFavorite = True, hasJoined = True,
            createdAt = 101\<rparr>"
    by (simp add: seed_store_def for_pair_def)
  have f11: "find (\<lambda>r. for_pair 1 1 r \<and> isFavorite r) (event_users seed_store) =
      Some \<lparr>eu_id = 1, userId = 1, eventId = 1, isFavorite = True, hasJoined = False,
            createdAt = 100\<rparr>"
    by (simp add: seed_store_def for_pair_def)
  from removeBookmark_contract[OF h12] f12
  have a: "removeBookmark seed_store 1 2 = (False, seed_store)" by simp
  from removeBookmark_contract[OF h21] f21
  have b: "fst (removeBookmark seed_store 2 1) \<and>
    filter (for_pair 2 1) (event_users (snd (removeBookmark seed_store 2 1))) =
     [\<lparr>eu_id = 2, userId = 2, eventId = 1, isFavorite = False, hasJoined = True,
       createdAt = 101\<rparr>]" by simp
  from removeBookmark_contract[OF h11] f11
  have c: "fst (removeBookmark seed_store 1 1) \<and>
    filter (for_pair 1 1) (event_users (snd (removeBookmark seed_store 1 1))) = [] \<and>
    snd (removeBookmark seed_store 1 1) \<noteq> seed_store" by auto
  from h21 h11 h12 a b c show ?thesis by blast
qed

subsection \<open>addBookmark next to another request\<close>

lemma addBookmark_race_alone: "addBookmark_race now (\<lambda>s. s) s u e = addBookmark now s u e"
  by (simp add: addBookmark_race_def addBookmark_def)

lemma addBookmark_race_conflict:
  assumes "Event_find s e \<noteq> None" and "User_find s u \<noteq> None"
    and "EventUser_first (for_pair u e) s = None"
    and "list_ex (for_pair u e) (event_users (other s))"
    and "Event_find (other s) e \<noteq> None" and "User_find (other s) u \<noteq> None"
  shows "addBookmark_race now other s u e = Inl UniqueViolation"
  using assms by (auto simp: addBookmark_race_def EventUser_create_def)

lemma seed_store_other_add:
  "exec_call seed_store (AddBookmark 500 1 3) =
      seed_store\<lparr>event_users := event_users seed_store @
               [\<lparr>eu_id = 3, userId = 1, eventId = 3, isFavorite = True,
                 hasJoined = False, createdAt = 500\<rparr>],
            next_eu_id := 4\<rparr>"
proof -
  have h1: "Event_find seed_store 3 \<noteq> None" and h2: "User_find seed_store 1 \<noteq> None"
    and h3: "find (for_pair 1 3) (event_users seed_store) = None"
    by (simp_all add: seed_store_def Event_find_def User_find_def for_pair_def)
  show ?thesis
    by (simp only: exec_call.simps addBookmark_new[OF h1 h2 h3] sum.case prod.case)
      (simp add: seed_store_def)
qed

lemma seed_store_race:
  "Event_find seed_store 3 \<noteq> None" "User_find seed_store 1 \<noteq> None"
  "EventUser_first (for_pair 1 3) seed_store = None"
  "list_ex (for_pair 1 3) (event_users (exec_call seed_store (AddBookmark 500 1 3)))"
  "Event_find (exec_call seed_store (AddBookmark 500 1 3)) 3 \<noteq> None"
  "User_find (exec_call seed_store (AddBookmark 500 1 3)) 1 \<noteq> None"
  unfolding seed_store_other_add
  by (simp_all add: seed_store_def Event_find_def User_find_def EventUser_first_def
      for_pair_def)

text \<open>
  Claim C4, as the code has it.  When the existence check of \<open>addBookmark\<close> finds no
  record for the pair and another request creates one before the insert, the insert fails
  on the unique constraint and \<open>addBookmark\<close> throws that error to its caller: nothing is
  read again and nothing is updated.
\<close>

theorem addBookmark_conflict_propagates:
  assumes "Event_find s e \<noteq> None" and "User_find s u \<noteq> None"
    and "EventUser_first (for_pair u e) s = None"
    and "list_ex (for_pair u e) (event_users (other s))"
    and "Event_find (other s) e \<noteq> None" and "User_find (other s) u \<noteq> None"
  shows "addBookmark_race now other s u e = Inl UniqueViolation"
  using assms by (rule addBookmark_race_conflict)

theorem addBookmark_conflict_propagates_witness:
  "Event_find seed_store 3 \<noteq> None \<and> User_find seed_store 1 \<noteq> None \<and>
   EventUser_first (for_pair 1 3) seed_store = None \<and>
   list_ex (for_pair 1 3) (event_users (exec_call seed_store (AddBookmark 500 1 3))) \<and>
   Event_find (exec_call seed_store (AddBookmark 500 1 3)) 3 \<noteq> None \<and>
   User_find (exec_call seed_store (AddBookmark 500 1 3)) 1 \<noteq> None \<and>
   addBookmark_race 501 (\<lambda>s. exec_call s (AddBookmark 500 1 3)) seed_store 1 3 =
     Inl UniqueViolation"
  using addBookmark_conflict_propagates
    [of seed_store 3 1 "\<lambda>s. exec_call s (AddBookmark 500 1 3)" 501, OF seed_store_race]
    seed_store_race
  by blast

text \<open>
  Two requests bookmark event 3 for user 1 on the seeded store, the second one's check
  running before the first one's insert: the second call ends in the constraint violation.
\<close>

theorem addBookmark_conflict_surfaces:
  "EventUser_first (for_pair 1 3) seed_store = None \<and>
   list_ex (for_pair 1 3) (event_users (exec_call seed_store (AddBookmark 500 1 3))) \<and>
   addBookmark_race 501 (\<lambda>s. exec_call s (AddBookmark 500 1 3)) seed_store 1 3 =
     Inl UniqueViolation"
  using addBookmark_race_conflict
    [of seed_store 3 1 "\<lambda>s. exec_call s (AddBookmark 500 1 3)" 501, OF seed_store_race]
    seed_store_race
  by blast

section \<open>The listing\<close>

subsection \<open>Pages\<close>

lemma paginate_InrD:
  assumes "paginate page perPage xs = Inr p"
  shows "pg_perPage p = perPage \<and> pg_currentPage p = page \<and> pg_total p = length xs \<and>
         pg_rows p = take (nat perPage) (drop (nat (perPage * (page - 1))) xs)"
proof (cases "xs = []")
  case True
  with assms show ?thesis by (auto simp: paginate_def)
next
  case False
  with assms show ?thesis
    by (auto simp: paginate_def Let_def split: if_splits)
qed

lemma paginate_ok:
  assumes "1 \<le> page" and "0 \<le> perPage"
  shows "\<exists>p. paginate page perPage xs = Inr p"
proof -
  from assms have "\<not> perPage * (page - 1) < 0"
    by (simp add: not_less)
  with assms show ?thesis by (simp add: paginate_def Let_def)
qed

lemma paginate_Nil:
  "paginate page perPage [] =
     Inr \<lparr>pg_rows = [], pg_total = 0, pg_perPage = perPage, pg_currentPage = page\<rparr>"
  by (simp add: paginate_def)

lemma getAll_paginate:
  "getAll s options =
     paginate (case opt_page options of None \<Rightarrow> 1 | Some v \<Rightarrow> v)
       (min (case opt_limit options of None \<Rightarrow> 20 | Some v \<Rightarrow> v) 100)
       (map (preload_participants s (opt_userId options)) (getAll_query s options))"
  by (simp add: getAll_def Let_def)

text \<open>
  Claim C5.  \<open>getAll\<close> returns a page whenever the page is at least 1 and the limit is
  not negative.  The page it returns has the requested page number, 1 when none is given, and
  the requested page size, 20 when none is given and 100 when more than 100 is requested; the
  page size is never above 100, the page has at most 100 rows, and for a page size of at
  least 1 its rows are that slice of the query's result.
\<close>

theorem getAll_page_and_limit:
  "(1 \<le> (case opt_page options of None \<Rightarrow> 1 | Some v \<Rightarrow> v) \<and>
    0 \<le> (case opt_limit options of None \<Rightarrow> 20 | Some v \<Rightarrow> v) \<longrightarrow>
      (\<exists>p. getAll s options = Inr p)) \<and>
   (\<forall>p. getAll s options = Inr p \<longrightarrow>
      pg_currentPage p = (case opt_page options of None \<Rightarrow> 1 | Some v \<Rightarrow> v) \<and>
      pg_perPage p = (case opt_limit options of None \<Rightarrow> 20 | Some v \<Rightarrow> if v > 100 then 100 else v) \<and>
      pg_perPage p \<le> 100 \<and> length (pg_rows p) \<le> 100 \<and>
      (1 \<le> pg_perPage p \<longrightarrow>
         pg_rows p =
           take (nat (pg_perPage p)) (drop (nat (pg_perPage p * (pg_currentPage p - 1)))
             (map (preload_participants s (opt_userId options)) (getAll_query s options)))))"
proof (intro conjI impI allI)
  assume "1 \<le> (case opt_page options of None \<Rightarrow> 1 | Some v \<Rightarrow> v) \<and>
    0 \<le> (case opt_limit options of None \<Rightarrow> 20 | Some v \<Rightarrow> v)"
  then show "\<exists>p. getAll s options = Inr p"
    unfolding getAll_paginate by (intro paginate_ok) auto
next
  fix p assume a: "getAll s options = Inr p"
  note d = paginate_InrD[OF a[unfolded getAll_paginate]]
  from d show "pg_currentPage p = (case opt_page options of None \<Rightarrow> 1 | Some v \<Rightarrow> v)"
    by simp
  from d show pp: "pg_perPage p = (case opt_limit options of None \<Rightarrow> 20 | Some v \<Rightarrow> if v > 100 then 100 else v)"
    by (auto split: option.splits)
  then show le: "pg_perPage p \<le> 100"
    by (auto split: option.splits)
  from d have r: "pg_rows p =
        take (nat (pg_perPage p)) (drop (nat (pg_perPage p * (pg_currentPage p - 1)))
          (map (preload_participants s (opt_userId options)) (getAll_query s options)))"
    by simp
  then show "pg_rows p =
        take (nat (pg_perPage p)) (drop (nat (pg_perPage p * (pg_currentPage p - 1)))
          (map (preload_participants s (opt_userId options)) (getAll_query s options)))"
    if "1 \<le> pg_perPage p" .
  from r have "length (pg_rows p) \<le> nat (pg_perPage p)" by simp
  with le show "length (pg_rows p) \<le> 100" by linarith
qed

theorem getAll_page_and_limit_witness:
  "(\<exists>p. getAll seed_store no_options = Inr p \<and> pg_currentPage p = 1 \<and> pg_perPage p = 20) \<and>
   (\<exists>p. getAll seed_store (no_options\<lparr>opt_limit := Some 1000\<rparr>) = Inr p \<and>
        pg_perPage p = 100 \<and> length (pg_rows p) \<le> 100)"
proof -
  have 1: "opt_page no_options = None" "opt_limit no_options = None"
    "opt_page (no_options\<lparr>opt_limit := Some 1000\<rparr>) = None"
    "opt_limit (no_options\<lparr>opt_limit := Some 1000\<rparr>) = Some 1000"
    by (simp_all add: no_options_def)
  from getAll_page_and_limit[of no_options seed_store] 1(1,2)
  have a: "\<exists>p. getAll seed_store no_options = Inr p \<and> pg_currentPage p = 1 \<and> pg_perPage p = 20"
    by auto
  from getAll_page_and_limit[of "no_options\<lparr>opt_limit := Some 1000\<rparr>" seed_store] 1(3,4)
  have b: "\<exists>p. getAll seed_store (no_options\<lparr>opt_limit := Some 1000\<rparr>) = Inr p \<and>
        pg_perPage p = 100 \<and> length (pg_rows p) \<le> 100"
    by auto
  from a b show ?thesis by blast
qed

subsection \<open>Empty strings\<close>

text \<open>
  Claim C10.  For \<open>getAll\<close> an empty string as type, subtype or city is the same as no
  value: the call returns what it returns with the field left out.
\<close>

theorem getAll_empty_string_is_absent:
  "getAll s (options\<lparr>opt_type := Some ''''\<rparr>) = getAll s (options\<lparr>opt_type := None\<rparr>) \<and>
   getAll s (options\<lparr>opt_subtype := Some ''''\<rparr>) = getAll s (options\<lparr>opt_subtype := None\<rparr>) \<and>
   getAll s (options\<lparr>opt_city := Some ''''\<rparr>) = getAll s (options\<lparr>opt_city := None\<rparr>)"
  by (simp add: getAll_def getAll_query_def where_type_def where_subtype_def where_city_def)

theorem getAll_empty_string_is_absent_witness:
  "getAll seed_store (no_options\<lparr>opt_city := Some ''''\<rparr>) = getAll seed_store no_options \<and>
   getAll seed_store (no_options\<lparr>opt_type := Some ''''\<rparr>) = getAll seed_store no_options \<and>
   map (ev_id \<circ> fst) (case getAll seed_store no_options of Inr p \<Rightarrow> pg_rows p | Inl err \<Rightarrow> []) =
     [2, 1, 3]"
proof -
  have n: "no_options\<lparr>opt_city := None\<rparr> = no_options" "no_options\<lparr>opt_type := None\<rparr> = no_options"
    by (simp_all add: no_options_def)
  have v: "map (ev_id \<circ> fst) (case getAll seed_store no_options of Inr p \<Rightarrow> pg_rows p | Inl err \<Rightarrow> []) =
     [2, 1, 3]"
    by (simp add: getAll_def getAll_query_def where_type_def where_subtype_def where_city_def
        where_startDate_def where_endDate_def no_options_def seed_store_def paginate_def
        preload_participants_def)
  from getAll_empty_string_is_absent[of seed_store no_options] n v show ?thesis by simp
qed

subsection \<open>The metadata of a response\<close>

lemma handle_OkD:
  assumes "handle s validated auth = Ok msg data m"
  shows "\<exists>q p. validated = Inr q \<and> getAll s (q\<lparr>opt_userId := auth\<rparr>) = Inr p \<and>
           data = pg_rows p \<and> m_total m = pg_total p \<and> m_isEmpty m = isEmpty p \<and>
           m_perPage m = pg_perPage p \<and> m_currentPage m = pg_currentPage p"
  using assms by (auto simp: handle_def Let_def split: sum.splits)

lemma getAll_total:
  assumes "getAll s options = Inr p"
  shows "pg_total p = length (getAll_query s options)"
    and "pg_total p = 0 \<Longrightarrow> pg_rows p = []"
proof -
  note d = paginate_InrD[OF assms[unfolded getAll_paginate]]
  from d show "pg_total p = length (getAll_query s options)" by simp
  from d show "pg_total p = 0 \<Longrightarrow> pg_rows p = []" by simp
qed

lemma getAll_nothing_matches:
  assumes "getAll_query s options = []"
  shows "getAll s options =
     Inr \<lparr>pg_rows = [], pg_total = 0,
          pg_perPage = min (case opt_limit options of None \<Rightarrow> 20 | Some v \<Rightarrow> v) 100,
          pg_currentPage = (case opt_page options of None \<Rightarrow> 1 | Some v \<Rightarrow> v)\<rparr>"
  unfolding getAll_paginate assms by (simp add: paginate_Nil)

text \<open>
  Claim C8.  In every successful response of the listing, a total of 0 comes with
  \<open>isEmpty\<close> true, and \<open>isEmpty\<close> true comes with no data.  When no event satisfies
  the filters, the response is successful, with no data, total 0 and \<open>isEmpty\<close> true,
  whatever page and limit were asked for.
\<close>

theorem handle_meta_consistent:
  "(\<forall>msg data m. handle s validated auth = Ok msg data m \<longrightarrow>
      (m_total m = 0 \<longrightarrow> m_isEmpty m) \<and> (m_isEmpty m \<longrightarrow> length data = 0)) \<and>
   (\<forall>q. validated = Inr q \<and> getAll_query s (q\<lparr>opt_userId := auth\<rparr>) = [] \<longrightarrow>
      (\<exists>m. handle s validated auth = Ok ''Events retrieved successfully'' [] m \<and>
           m_total m = 0 \<and> m_isEmpty m))"
proof (intro conjI allI impI)
  fix msg data m
  assume ok: "handle s validated auth = Ok msg data m"
  from handle_OkD[OF ok] obtain q p where
    g: "getAll s (q\<lparr>opt_userId := auth\<rparr>) = Inr p" and
    d: "data = pg_rows p" "m_total m = pg_total p" "m_isEmpty m = isEmpty p"
    by blast
  { assume "m_total m = 0"
    with d getAll_total(2)[OF g] show "m_isEmpty m" by (simp add: isEmpty_def) }
  { assume "m_isEmpty m"
    with d show "length data = 0" by (simp add: isEmpty_def) }
next
  fix q
  assume a: "validated = Inr q \<and> getAll_query s (q\<lparr>opt_userId := auth\<rparr>) = []"
  then have "getAll s (q\<lparr>opt_userId := auth\<rparr>) =
     Inr \<lparr>pg_rows = [], pg_total = 0,
          pg_perPage = min (case opt_limit (q\<lparr>opt_userId := auth\<rparr>) of None \<Rightarrow> 20 | Some v \<Rightarrow> v) 100,
          pg_currentPage = (case opt_page (q\<lparr>opt_userId := auth\<rparr>) of None \<Rightarrow> 1 | Some v \<Rightarrow> v)\<rparr>"
    by (intro getAll_nothing_matches) simp
  with a show "\<exists>m. handle s validated auth = Ok ''Events retrieved successfully'' [] m \<and>
           m_total m = 0 \<and> m_isEmpty m"
    by (simp add: handle_def Let_def isEmpty_def)
qed

lemma seed_no_such_city:
  "getAll_query seed_store (no_options\<lparr>opt_city := Some ''NoSuchCity'', opt_userId := None\<rparr>) = []"
  by (simp add: getAll_query_def where_type_def where_subtype_def where_city_def
      where_startDate_def where_endDate_def no_options_def seed_store_def
      trim_def is_space_def ilike_def to_lower_def)

theorem handle_meta_consistent_witness:
  "\<exists>m. handle seed_store (Inr (no_options\<lparr>opt_city := Some ''NoSuchCity''\<rparr>)) None =
         Ok ''Events retrieved successfully'' [] m \<and> m_total m = 0 \<and> m_isEmpty m"
  using handle_meta_consistent[of seed_store "Inr (no_options\<lparr>opt_city := Some ''NoSuchCity''\<rparr>)" None]
    seed_no_such_city
  by simp

subsection \<open>Patterns\<close>

lemma like_percent:
  "like_match (CHR ''%'' # ps) str \<longleftrightarrow> (\<exists>a b. str = a @ b \<and> like_match ps b)"
proof (induction str)
  case Nil
  then show ?case by simp
next
  case (Cons c cs)
  have "like_match (CHR ''%'' # ps) (c # cs) \<longleftrightarrow>
        like_match ps (c # cs) \<or> like_match (CHR ''%'' # ps) cs"
    by simp
  also have "\<dots> \<longleftrightarrow> like_match ps (c # cs) \<or> (\<exists>a b. cs = a @ b \<and> like_match ps b)"
    using Cons.IH by simp
  also have "\<dots> \<longleftrightarrow> (\<exists>a b. c # cs = a @ b \<and> like_match ps b)"
    by (auto simp: Cons_eq_append_conv)
  finally show ?case .
qed

lemma like_literal:
  assumes "x \<noteq> CHR ''%''" "x \<noteq> CHR ''_''" "x \<noteq> CHR 0x5C"
  shows "like_match (x # ps) str \<longleftrightarrow> (\<exists>t. str = x # t \<and> like_match ps t)"
  using assms by (cases str) auto

lemma like_no_wildcards:
  "no_wildcards p \<Longrightarrow>
   like_match (p @ q) str \<longleftrightarrow> (\<exists>t. str = p @ t \<and> like_match q t)"
proof (induction p arbitrary: str)
  case Nil
  then show ?case by simp
next
  case (Cons x xs)
  from Cons.prems have x: "x \<noteq> CHR ''%''" "x \<noteq> CHR ''_''" "x \<noteq> CHR 0x5C"
    and xs: "no_wildcards xs"
    by (simp_all add: no_wildcards_def)
  have "like_match ((x # xs) @ q) str \<longleftrightarrow> (\<exists>t. str = x # t \<and> like_match (xs @ q) t)"
    using like_literal[OF x] by simp
  also have "\<dots> \<longleftrightarrow> (\<exists>t. str = x # t \<and> (\<exists>t'. t = xs @ t' \<and> like_match q t'))"
    using Cons.IH[OF xs] by simp
  also have "\<dots> \<longleftrightarrow> (\<exists>t'. str = (x # xs) @ t' \<and> like_match q t')"
    by auto
  finally show ?case .
qed

lemma like_contains:
  assumes "no_wildcards p"
  shows "like_match (''%'' @ p @ ''%'') str \<longleftrightarrow> sublist p str"
proof -
  have any: "like_match ''%'' t" for t
    using like_percent[of "[]" t] by auto
  have "like_match (''%'' @ p @ ''%'') str \<longleftrightarrow>
        (\<exists>a b. str = a @ b \<and> like_match (p @ ''%'') b)"
    using like_percent[of "p @ ''%''" str] by simp
  also have "\<dots> \<longleftrightarrow> (\<exists>a b. str = a @ b \<and> (\<exists>t. b = p @ t))"
    using like_no_wildcards[OF assms, of "''%''"] any by simp
  also have "\<dots> \<longleftrightarrow> sublist p str"
    by (auto simp: sublist_def)
  finally show ?thesis .
qed

lemma to_lower_wildcard:
  "to_lower c = CHR ''%'' \<longleftrightarrow> c = CHR ''%''"
  "to_lower c = CHR ''_'' \<longleftrightarrow> c = CHR ''_''"
  "to_lower c = CHR 0x5C \<longleftrightarrow> c = CHR 0x5C"
  by (auto simp: to_lower_def split: option.splits if_splits)

lemma no_wildcards_lower: "no_wildcards (map to_lower p) = no_wildcards p"
  by (induction p) (simp_all add: no_wildcards_def to_lower_wildcard)

lemma ilike_contains:
  assumes "no_wildcards c"
  shows "ilike (''%'' @ c @ ''%'') x \<longleftrightarrow> sublist (map to_lower c) (map to_lower x)"
proof -
  have "to_lower CHR ''%'' = CHR ''%''" by (simp add: to_lower_wildcard)
  then have "map to_lower (''%'' @ c @ ''%'') = ''%'' @ map to_lower c @ ''%''" by simp
  with like_contains[of "map to_lower c" "map to_lower x"] assms show ?thesis
    by (simp add: ilike_def no_wildcards_lower)
qed

subsection \<open>Filters and order\<close>

lemma in_where_type:
  "e \<in> set (where_type t q) \<Longrightarrow> e \<in> set q \<and> (\<forall>v. t = Some v \<and> v \<noteq> [] \<longrightarrow> ev_type e = v)"
  by (auto simp: where_type_def split: option.splits if_splits)

lemma in_where_subtype:
  "e \<in> set (where_subtype t q) \<Longrightarrow> e \<in> set q \<and> (\<forall>v. t = Some v \<and> v \<noteq> [] \<longrightarrow> ev_subtype e = v)"
  by (auto simp: where_subtype_def split: option.splits if_splits)

lemma in_where_city:
  "e \<in> set (where_city c q) \<Longrightarrow>
   e \<in> set q \<and>
   (\<forall>v. c = Some v \<and> v \<noteq> [] \<longrightarrow>
        ev_city e = trim v \<or> ilike (''%'' @ trim v @ ''%'') (ev_city e))"
  by (auto simp: where_city_def Let_def split: option.splits if_splits)

lemma in_where_startDate:
  "e \<in> set (where_startDate d q) \<Longrightarrow> e \<in> set q \<and> (\<forall>v. d = Some v \<longrightarrow> v \<le> ev_startDate e)"
  by (auto simp: where_startDate_def split: option.splits)

lemma in_where_endDate:
  "e \<in> set (where_endDate d q) \<Longrightarrow>
   e \<in> set q \<and> (\<forall>v. d = Some v \<longrightarrow> (\<exists>d'. ev_endDate e = Some d' \<and> d' \<le> v))"
  by (auto simp: where_endDate_def split: option.splits)

lemma in_getAll_query:
  assumes "e \<in> set (getAll_query s options)"
  shows "e \<in> set (events s) \<and> satisfies_filters options e"
proof -
  from assms have 1: "e \<in> set (where_endDate (opt_endDate options)
         (where_startDate (opt_startDate options)
           (where_city (opt_city options)
             (where_subtype (opt_subtype options)
               (where_type (opt_type options) (events s))))))"
    by (simp add: getAll_query_def)
  note a = in_where_endDate[OF 1]
  note b = in_where_startDate[OF a[THEN conjunct1]]
  note c = in_where_city[OF b[THEN conjunct1]]
  note d = in_where_subtype[OF c[THEN conjunct1]]
  note f = in_where_type[OF d[THEN conjunct1]]
  have city: "city_matches_as_specified (trim v) (ev_city e)"
    if "opt_city options = Some v" "v \<noteq> []" "no_wildcards (trim v)" for v
  proof -
    from c that have "ev_city e = trim v \<or> ilike (''%'' @ trim v @ ''%'') (ev_city e)"
      by blast
    with ilike_contains[OF that(3), of "ev_city e"] show ?thesis
      by (auto simp: city_matches_as_specified_def)
  qed
  from a b c d f city show ?thesis
    unfolding satisfies_filters_def by blast
qed

lemma fst_preload [simp]: "fst (preload_participants s u e) = e"
  by (simp add: preload_participants_def split: option.splits)

lemma getAll_rows:
  assumes "getAll s options = Inr p"
  shows "\<exists>n k. map fst (pg_rows p) = take n (drop k (getAll_query s options))"
proof -
  note d = paginate_InrD[OF assms[unfolded getAll_paginate]]
  then have "map fst (pg_rows p) =
    take (nat (pg_perPage p)) (drop (nat (pg_perPage p * (pg_currentPage p - 1)))
      (map fst (map (preload_participants s (opt_userId options)) (getAll_query s options))))"
    by (simp add: take_map drop_map)
  also have "map fst (map (preload_participants s (opt_userId options)) (getAll_query s options))
     = getAll_query s options"
    by (simp add: comp_def)
  finally show ?thesis by blast
qed

lemma getAll_rows_satisfy:
  assumes "getAll s options = Inr p"
  shows "list_all (\<lambda>(e, ps). e \<in> set (events s) \<and> satisfies_filters options e) (pg_rows p)"
    and "sorted (map (ev_startDate \<circ> fst) (pg_rows p))"
proof -
  from getAll_rows[OF assms] obtain n k where
    r: "map fst (pg_rows p) = take n (drop k (getAll_query s options))" by blast
  have "e \<in> set (events s) \<and> satisfies_filters options e" if "(e, ps) \<in> set (pg_rows p)" for e ps
  proof -
    from that have "e \<in> set (map fst (pg_rows p))" by force
    with r have "e \<in> set (getAll_query s options)"
      by (auto dest: in_set_takeD in_set_dropD)
    then show ?thesis by (rule in_getAll_query)
  qed
  then show "list_all (\<lambda>(e, ps). e \<in> set (events s) \<and> satisfies_filters options e) (pg_rows p)"
    by (auto simp: list_all_iff)
  have "sorted (map ev_startDate (getAll_query s options))"
    by (simp add: getAll_query_def)
  then have "sorted (map ev_startDate (take n (drop k (getAll_query s options))))"
    by (simp add: take_map[symmetric] drop_map[symmetric] del: take_map drop_map)
  with r show "sorted (map (ev_startDate \<circ> fst) (pg_rows p))"
    by (metis map_map)
qed

text \<open>
  Claim C6, as the code has it.  Every event on a returned page is a stored event that
  satisfies each filter that is given and not empty: its type and its subtype are the given
  ones; its city is the trimmed city filter, or matches the pattern \<open>%city%\<close> without regard
  to case, where \<open>%\<close>, \<open>_\<close> and the backslash in the filter are read as \<open>LIKE\<close>
  does; for a filter without these characters that is: the city is the trimmed filter or
  contains it without regard to case; its start date is on or after \<open>startDate\<close>; it has
  an end date, on or before \<open>endDate\<close>.  The events of a page are in ascending order of
  start date.
\<close>

theorem getAll_filters_and_order:
  assumes "getAll s options = Inr p"
  shows "list_all (\<lambda>(e, ps).
           e \<in> set (events s) \<and>
           (\<forall>t. opt_type options = Some t \<and> t \<noteq> [] \<longrightarrow> ev_type e = t) \<and>
           (\<forall>t. opt_subtype options = Some t \<and> t \<noteq> [] \<longrightarrow> ev_subtype e = t) \<and>
           (\<forall>c. opt_city options = Some c \<and> c \<noteq> [] \<longrightarrow>
                ev_city e = trim c \<or> ilike (''%'' @ trim c @ ''%'') (ev_city e)) \<and>
           (\<forall>c. opt_city options = Some c \<and> c \<noteq> [] \<and> no_wildcards (trim c) \<longrightarrow>
                city_matches_as_specified (trim c) (ev_city e)) \<and>
           (\<forall>d. opt_startDate options = Some d \<longrightarrow> d \<le> ev_startDate e) \<and>
           (\<forall>d. opt_endDate options = Some d \<longrightarrow>
                (\<exists>d'. ev_endDate e = Some d' \<and> d' \<le> d)))
         (pg_rows p) \<and>
         sorted (map (ev_startDate \<circ> fst) (pg_rows p))"
  using getAll_rows_satisfy[OF assms] unfolding satisfies_filters_def by simp

lemma seed_concert_toulouse:
  "getAll seed_store (no_options\<lparr>opt_type := Some ''concert'', opt_city := Some ''Toulouse''\<rparr>) =
     Inr \<lparr>pg_rows = [(\<lparr>ev_id = 1, ev_title = ''Live @ Bikini'', ev_startDate = 20,
                        ev_endDate = Some 20, ev_city = ''Toulouse'', ev_type = ''concert'',
                        ev_subtype = ''rock''\<rparr>, None),
                     (\<lparr>ev_id = 3, ev_title = ''Open air'', ev_startDate = 30,
                        ev_endDate = None, ev_city = ''Toulouse'', ev_type = ''concert'',
                        ev_subtype = ''techno''\<rparr>, None)],
          pg_total = 2, pg_perPage = 20, pg_currentPage = 1\<rparr>"
  by (simp add: getAll_def getAll_query_def where_type_def where_subtype_def where_city_def
      where_startDate_def where_endDate_def no_options_def seed_store_def paginate_def
      preload_participants_def trim_def is_space_def ilike_def to_lower_def Let_def)

theorem getAll_filters_and_order_witness:
  "\<exists>p. getAll seed_store (no_options\<lparr>opt_type := Some ''concert'', opt_city := Some ''Toulouse''\<rparr>)
         = Inr p \<and>
       map (ev_id \<circ> fst) (pg_rows p) = [1, 3] \<and>
       list_all (\<lambda>(e, ps). ev_type e = ''concert'' \<and>
                   city_matches_as_specified ''Toulouse'' (ev_city e)) (pg_rows p) \<and>
       sorted (map (ev_startDate \<circ> fst) (pg_rows p))"
proof -
  have t: "trim ''Toulouse'' = ''Toulouse''" "no_wildcards ''Toulouse''"
    by (simp_all add: trim_def is_space_def no_wildcards_def)
  have o: "opt_type (no_options\<lparr>opt_type := Some ''concert'', opt_city := Some ''Toulouse''\<rparr>) = Some ''concert''"
    "opt_city (no_options\<lparr>opt_type := Some ''concert'', opt_city := Some ''Toulouse''\<rparr>) = Some ''Toulouse''"
    by simp_all
  from getAll_filters_and_order[OF seed_concert_toulouse] t o
  have "list_all (\<lambda>(e, ps). ev_type e = ''concert'' \<and>
                   city_matches_as_specified ''Toulouse'' (ev_city e))
          [(\<lparr>ev_id = 1, ev_title = ''Live @ Bikini'', ev_startDate = 20,
                        ev_endDate = Some 20, ev_city = ''Toulouse'', ev_type = ''concert'',
                        ev_subtype = ''rock''\<rparr>, None),
                     (\<lparr>ev_id = 3, ev_title = ''Open air'', ev_startDate = 30,
                        ev_endDate = None, ev_city = ''Toulouse'', ev_type = ''concert'',
                        ev_subtype = ''techno''\<rparr>, None :: event_user list option)]"
    by simp
  with seed_concert_toulouse show ?thesis by simp
qed

text \<open>
  The city filter \<open>_\<close> on the seeded store returns all three events, none of which has
  an underscore in its city.
\<close>

theorem getAll_city_wildcard:
  "(case getAll seed_store (no_options\<lparr>opt_city := Some ''_''\<rparr>) of
      Inl err \<Rightarrow> False
    | Inr p \<Rightarrow>
        map (ev_city \<circ> fst) (pg_rows p) = [''Paris'', ''Toulouse'', ''Toulouse''] \<and>
        \<not> list_all (\<lambda>(e, ps). city_matches_as_specified ''_'' (ev_city e)) (pg_rows p))"
  by (simp add: getAll_def getAll_query_def where_type_def where_subtype_def where_city_def
      where_startDate_def where_endDate_def no_options_def seed_store_def paginate_def
      preload_participants_def trim_def is_space_def ilike_def to_lower_def Let_def
      city_matches_as_specified_def sublist_code)

section \<open>The bookmarks of a user\<close>

lemma in_join_event_users:
  "(e, r) \<in> set (join_event_users s) \<longleftrightarrow>
     e \<in> set (events s) \<and> r \<in> set (event_users s) \<and> ev_id e = eventId r"
  by (auto simp: join_event_users_def)

lemma in_getUserBookmarks_query:
  "(e, r) \<in> set (getUserBookmarks_query s uid) \<longleftrightarrow>
     e \<in> set (events s) \<and> r \<in> set (event_users s) \<and> ev_id e = eventId r \<and>
     userId r = uid \<and> isFavorite r"
  by (auto simp: getUserBookmarks_query_def in_join_event_users)

lemma getUserBookmarks_query_events:
  "set (map fst (getUserBookmarks_query s uid)) =
     {e \<in> set (events s).
        \<exists>r \<in> set (event_users s). eventId r = ev_id e \<and> userId r = uid \<and> isFavorite r}"
proof (intro set_eqI iffI)
  fix e assume "e \<in> set (map fst (getUserBookmarks_query s uid))"
  then obtain r where "(e, r) \<in> set (getUserBookmarks_query s uid)" by auto
  then show "e \<in> {e \<in> set (events s).
        \<exists>r \<in> set (event_users s). eventId r = ev_id e \<and> userId r = uid \<and> isFavorite r}"
    by (auto simp: in_getUserBookmarks_query)
next
  fix e assume "e \<in> {e \<in> set (events s).
        \<exists>r \<in> set (event_users s). eventId r = ev_id e \<and> userId r = uid \<and> isFavorite r}"
  then obtain r where "e \<in> set (events s)" "r \<in> set (event_users s)"
    "eventId r = ev_id e" "userId r = uid" "isFavorite r"
    by blast
  then have "(e, r) \<in> set (getUserBookmarks_query s uid)"
    by (simp add: in_getUserBookmarks_query)
  then show "e \<in> set (map fst (getUserBookmarks_query s uid))" by force
qed

lemma getUserBookmarks_query_desc:
  "sorted_wrt (\<lambda>a b. createdAt (snd a) \<ge> createdAt (snd b)) (getUserBookmarks_query s uid)"
proof -
  have "sorted (map (\<lambda>(e, r). - int (createdAt r)) (getUserBookmarks_query s uid))"
    unfolding getUserBookmarks_query_def by (rule sorted_sort_key)
  then have "sorted_wrt (\<lambda>a b. (case a of (e, r) \<Rightarrow> - int (createdAt r)) \<le>
                              (case b of (e, r) \<Rightarrow> - int (createdAt r)))
               (getUserBookmarks_query s uid)"
    by (simp add: sorted_map)
  then show ?thesis
    by (rule sorted_wrt_mono_rel[rotated]) (auto split: prod.splits)
qed

lemma bookmarks_store_query:
  "getUserBookmarks_query bookmarks_store 2 =
     [(\<lparr>ev_id = 2, ev_title = ''Jazz in Paris'', ev_startDate = 10, ev_endDate = Some 12,
        ev_city = ''Paris'', ev_type = ''festival'', ev_subtype = ''jazz''\<rparr>,
       \<lparr>eu_id = 4, userId = 2, eventId = 2, isFavorite = True, hasJoined = False,
        createdAt = 300\<rparr>),
      (\<lparr>ev_id = 3, ev_title = ''Open air'', ev_startDate = 30, ev_endDate = None,
        ev_city = ''Toulouse'', ev_type = ''concert'', ev_subtype = ''techno''\<rparr>,
       \<lparr>eu_id = 3, userId = 2, eventId = 3, isFavorite = True, hasJoined = False,
        createdAt = 200\<rparr>),
      (\<lparr>ev_id = 1, ev_title = ''Live @ Bikini'', ev_startDate = 20, ev_endDate = Some 20,
        ev_city = ''Toulouse'', ev_type = ''concert'', ev_subtype = ''rock''\<rparr>,
       \<lparr>eu_id = 2, userId = 2, eventId = 1, isFavorite = True, hasJoined = True,
        createdAt = 101\<rparr>)]"
  by (simp add: getUserBookmarks_query_def join_event_users_def bookmarks_store_def
      seed_store_def)

text \<open>
  Claim C9 on the store in which the regular user has three bookmarks.  The events that
  have a favourite row of the user are the events 2, 3 and 1, in the order of the claim,
  most recently bookmarked first, and \<open>getUserBookmarks\<close> returns one entry for each of
  them, in that order and cut into pages as asked.  But the entries it returns have the ids 4,
  3 and 2, which are the ids of the participation rows: the first entry, the festival in
  Paris, is returned with id 4 and is no stored event, and the last, event 1, is returned
  with the id of event 2.
\<close>

theorem getUserBookmarks_returns_row_ids:
  "map (ev_id \<circ> fst) (getUserBookmarks_query bookmarks_store 2) = [2, 3, 1] \<and>
   (case getUserBookmarks bookmarks_store 2 None None of
      Inl err \<Rightarrow> False
    | Inr p \<Rightarrow>
        map ev_id (pg_rows p) = [4, 3, 2] \<and>
        map ev_title (pg_rows p) = [''Jazz in Paris'', ''Open air'', ''Live @ Bikini''] \<and>
        pg_total p = 3 \<and>
        list_ex (\<lambda>e. e \<notin> set (events bookmarks_store)) (pg_rows p)) \<and>
   (case getUserBookmarks bookmarks_store 2 (Some 2) (Some 2) of
      Inl err \<Rightarrow> False
    | Inr p \<Rightarrow> map ev_id (pg_rows p) = [2] \<and> map ev_title (pg_rows p) = [''Live @ Bikini''])"
  by (simp add: getUserBookmarks_def bookmarks_store_query event_of_joined_row_def
      paginate_def Let_def)
    (simp add: bookmarks_store_def seed_store_def)

end
